theory Spec2Isabelle
  imports Complex_Main "HOL-Library.AList"
begin

section \<open>Python values, dictionaries and errors\<close>

text \<open>
  The three scripts (forecast physics daily, forecast biogeochemistry monthly, reanalysis
  daily) share one retry function \<open>get_extraction\<close>, one adapter class \<open>MotuOptions\<close>
  and one main loop. The request-parameter record is a Python \<open>dict\<close> with string keys;
  it is modelled as an association list in insertion order, read with \<open>map_of\<close> and
  written with \<open>AList.update\<close> (an assignment to an existing key keeps its position).
\<close>

datatype pyval = PyStr string | PyFloat real | PyList "string list"

type_synonym pydict = "(string \<times> pyval) list"

datatype exn = SocketTimeout | OtherException

datatype error = IndexError | NameError | ValueError | OverflowError | Uncaught exn

section \<open>The adapter class \<open>MotuOptions\<close>\<close>

text \<open>
  \<open>__init__\<close> stores the dictionary as the instance attribute \<open>attrs\<close> (through
  \<open>object.__setattr__\<close>), so the instance dictionary has exactly that one entry.
\<close>

record MotuOptions =
  attrs :: pydict

definition MotuOptions_init :: "pydict \<Rightarrow> MotuOptions" where
  "MotuOptions_init d = \<lparr>attrs = d\<rparr>"

text \<open>\<open>__setattr__(self, k, v)\<close>: \<open>self.attrs[k] = v\<close>.\<close>

definition MotuOptions_setattr :: "MotuOptions \<Rightarrow> string \<Rightarrow> pyval \<Rightarrow> MotuOptions" where
  "MotuOptions_setattr self k v = self\<lparr>attrs := AList.update k v (attrs self)\<rparr>"

text \<open>
  \<open>__getattr__(self, k)\<close>: \<open>self.attrs[k]\<close>, and \<open>None\<close> on \<open>KeyError\<close>. Python calls
  \<open>__getattr__\<close> only when the normal lookup has failed.
\<close>

datatype attr_value = Value pyval | PyNone | TheDict pydict | ClassAttribute string

definition MotuOptions_getattr_hook :: "MotuOptions \<Rightarrow> string \<Rightarrow> attr_value" where
  "MotuOptions_getattr_hook self k =
     (case map_of (attrs self) k of Some v \<Rightarrow> Value v | None \<Rightarrow> PyNone)"

section \<open>The download client and the file system\<close>

text \<open>
  The download client is an external collaborator. One attempt either completes or
  raises; the outcome may depend on how many calls were made before and on the options
  it is given. A completed attempt has written the file named by \<open>out_dir\<close> and
  \<open>out_name\<close>. The world records the working directory, the regular files that exist
  (absolute paths), every call made to the client, and the text of the log file.
\<close>

datatype attempt = Completed | Raises exn

type_synonym client = "nat \<Rightarrow> MotuOptions \<Rightarrow> attempt"

record world =
  cwd :: string
  files :: "string set"
  calls :: "pydict list"
  log_txt :: string

definition os_path_join :: "string \<Rightarrow> string \<Rightarrow> string" where
  "os_path_join a b =
     (if b \<noteq> [] \<and> hd b = CHR ''/'' then b
      else if a = [] \<or> last a = CHR ''/'' then a @ b
      else a @ ''/'' @ b)"

definition target_path :: "MotuOptions \<Rightarrow> string option" where
  "target_path opts =
     (case (map_of (attrs opts) ''out_dir'', map_of (attrs opts) ''out_name'') of
        (Some (PyStr d), Some (PyStr n)) \<Rightarrow> Some (os_path_join d n)
      | _ \<Rightarrow> None)"

definition execute_request :: "client \<Rightarrow> MotuOptions \<Rightarrow> world \<Rightarrow> attempt \<times> world" where
  "execute_request c opts w =
     (let a = c (length (calls w)) opts;
          w1 = w\<lparr>calls := calls w @ [attrs opts]\<rparr>
      in case a of
           Raises e \<Rightarrow> (Raises e, w1)
         | Completed \<Rightarrow>
             (Completed,
              case target_path opts of
                None \<Rightarrow> w1
              | Some p \<Rightarrow> w1\<lparr>files := insert (os_path_join (cwd w) p) (files w1)\<rparr>))"

section \<open>Bounded-retry extraction\<close>

text \<open>
  The body of the \<open>while\<close> loop: the \<open>try\<close> statement around the client call. The clause
  \<open>except timeout\<close> handles a socket timeout, the bare \<open>except\<close> every other exception,
  and the \<open>else\<close> clause sets \<open>got_file\<close>. Console output and the elapsed-time
  measurement are not modelled.
\<close>

definition try_execute_request ::
    "client \<Rightarrow> pydict \<Rightarrow> bool \<Rightarrow> world \<Rightarrow> error + (bool \<times> world)" where
  "try_execute_request c d got_file w =
     (case execute_request c (MotuOptions_init d) w of
        (Raises e, w') \<Rightarrow>
          (if e = SocketTimeout then Inr (got_file, w')
           else Inr (got_file, w'))
      | (Completed, w') \<Rightarrow> Inr (True, w'))"

function retry_loop ::
    "client \<Rightarrow> pydict \<Rightarrow> int \<Rightarrow> bool \<Rightarrow> world \<Rightarrow> error + (int \<times> bool \<times> world)" where
  "retry_loop c d counter got_file w =
     (if counter \<le> 10 \<and> got_file = False then
        (case try_execute_request c d got_file w of
           Inl e \<Rightarrow> Inl e
         | Inr (got_file', w') \<Rightarrow> retry_loop c d (counter + 1) got_file' w')
      else Inr (counter, got_file, w))"
  by pat_completeness auto
termination
  by (relation "measure (\<lambda>(c, d, counter, got_file, w). nat (11 - counter))") auto

declare retry_loop.simps [simp del]

definition get_extraction :: "client \<Rightarrow> pydict \<Rightarrow> world \<Rightarrow> error + (string \<times> world)" where
  "get_extraction c d w =
     (case retry_loop c d 1 False w of
        Inl e \<Rightarrow> Inl e
      | Inr (counter, got_file, w') \<Rightarrow>
          Inr (if got_file then ''success'' else ''fail'', w'))"

text \<open>The number of client calls made between two worlds.\<close>

definition attempts :: "world \<Rightarrow> world \<Rightarrow> nat" where
  "attempts w w' = length (calls w') - length (calls w)"

definition extraction_outcome :: "client \<Rightarrow> pydict \<Rightarrow> world \<Rightarrow> error + (string \<times> nat)" where
  "extraction_outcome c d w =
     (case get_extraction c d w of
        Inl e \<Rightarrow> Inl e
      | Inr (r, w') \<Rightarrow> Inr (r, attempts w w'))"

section \<open>Concrete clients and worlds\<close>

definition always_fails :: client where
  "always_fails n opts = Raises OtherException"

definition succeeds_on :: "nat \<Rightarrow> client" where
  "succeeds_on k n opts = (if Suc n = k then Completed else Raises SocketTimeout)"

definition world0 :: world where
  "world0 = \<lparr>cwd = ''/home/user'', files = {}, calls = [], log_txt = []\<rparr>"


section \<open>Properties of the bounded-retry extraction\<close>

lemma try_execute_request_Inr:
  "\<exists>w'. try_execute_request c d g w =
           Inr (g \<or> c (length (calls w)) (MotuOptions_init d) = Completed, w')
        \<and> calls w' = calls w @ [d] \<and> log_txt w' = log_txt w \<and> cwd w' = cwd w"
  by (cases "c (length (calls w)) (MotuOptions_init d)")
     (auto simp: try_execute_request_def execute_request_def Let_def MotuOptions_init_def
           split: option.splits)

lemma retry_loop_done:
  "\<not> (counter \<le> 10 \<and> \<not> g) \<Longrightarrow> retry_loop c d counter g w = Inr (counter, g, w)"
  by (subst retry_loop.simps) auto

lemma retry_loop_all_fail:
  "counter + int k = 11 \<Longrightarrow>
   \<forall>j<k. c (length (calls w) + j) (MotuOptions_init d) \<noteq> Completed \<Longrightarrow>
   \<exists>w'. retry_loop c d counter False w = Inr (11, False, w')
        \<and> calls w' = calls w @ replicate k d \<and> log_txt w' = log_txt w \<and> cwd w' = cwd w"
proof (induction k arbitrary: counter w)
  case 0
  then show ?case by (simp add: retry_loop_done)
next
  case (Suc k)
  from Suc.prems(2) have now: "c (length (calls w)) (MotuOptions_init d) \<noteq> Completed"
    by (metis add.right_neutral zero_less_Suc)
  obtain w1 where w1: "try_execute_request c d False w = Inr (False, w1)"
      "calls w1 = calls w @ [d]" "log_txt w1 = log_txt w" "cwd w1 = cwd w"
    using try_execute_request_Inr [of c d False w] now by auto
  have later: "\<forall>j<k. c (length (calls w1) + j) (MotuOptions_init d) \<noteq> Completed"
    using Suc.prems(2) w1(2) by auto
  have cnt: "counter + 1 + int k = 11" using Suc.prems(1) by simp
  from Suc.IH [OF cnt later] obtain w' where
    w': "retry_loop c d (counter + 1) False w1 = Inr (11, False, w')"
        "calls w' = calls w1 @ replicate k d" "log_txt w' = log_txt w1" "cwd w' = cwd w1"
    by blast
  have "counter \<le> 10" using Suc.prems(1) by simp
  then have "retry_loop c d counter False w = retry_loop c d (counter + 1) False w1"
    by (subst retry_loop.simps) (simp add: w1(1))
  with w' w1 show ?case by (simp add: replicate_app_Cons_same)
qed

lemma retry_loop_first_success:
  "counter + int m \<le> 10 \<Longrightarrow>
   \<forall>j<m. c (length (calls w) + j) (MotuOptions_init d) \<noteq> Completed \<Longrightarrow>
   c (length (calls w) + m) (MotuOptions_init d) = Completed \<Longrightarrow>
   \<exists>w'. retry_loop c d counter False w = Inr (counter + int m + 1, True, w')
        \<and> calls w' = calls w @ replicate (Suc m) d \<and> log_txt w' = log_txt w \<and> cwd w' = cwd w"
proof (induction m arbitrary: counter w)
  case 0
  obtain w1 where w1: "try_execute_request c d False w = Inr (True, w1)"
      "calls w1 = calls w @ [d]" "log_txt w1 = log_txt w" "cwd w1 = cwd w"
    using try_execute_request_Inr [of c d False w] "0.prems"(3) by auto
  have "retry_loop c d counter False w = retry_loop c d (counter + 1) True w1"
    using "0.prems"(1) by (subst retry_loop.simps) (simp add: w1(1))
  with w1 show ?case by (simp add: retry_loop_done)
next
  case (Suc m)
  from Suc.prems(2) have now: "c (length (calls w)) (MotuOptions_init d) \<noteq> Completed"
    by (metis add.right_neutral zero_less_Suc)
  obtain w1 where w1: "try_execute_request c d False w = Inr (False, w1)"
      "calls w1 = calls w @ [d]" "log_txt w1 = log_txt w" "cwd w1 = cwd w"
    using try_execute_request_Inr [of c d False w] now by auto
  have later: "\<forall>j<m. c (length (calls w1) + j) (MotuOptions_init d) \<noteq> Completed"
    using Suc.prems(2) w1(2) by auto
  have hit: "c (length (calls w1) + m) (MotuOptions_init d) = Completed"
    using Suc.prems(3) w1(2) by simp
  have cnt: "counter + 1 + int m \<le> 10" using Suc.prems(1) by simp
  from Suc.IH [OF cnt later hit] obtain w' where
    w': "retry_loop c d (counter + 1) False w1 = Inr (counter + 1 + int m + 1, True, w')"
        "calls w' = calls w1 @ replicate (Suc m) d" "log_txt w' = log_txt w1" "cwd w' = cwd w1"
    by blast
  have "counter \<le> 10" using Suc.prems(1) by simp
  then have "retry_loop c d counter False w = retry_loop c d (counter + 1) False w1"
    by (subst retry_loop.simps) (simp add: w1(1))
  with w' w1 show ?case by (simp add: replicate_app_Cons_same)
qed

lemma retry_loop_total:
  "\<exists>n g' w'. retry_loop c d counter g w = Inr (counter + int n, g', w')
        \<and> n \<le> nat (11 - counter)
        \<and> calls w' = calls w @ replicate n d \<and> log_txt w' = log_txt w \<and> cwd w' = cwd w"
proof (induction c d counter g w rule: retry_loop.induct)
  case (1 c d counter got_file w)
  show ?case
  proof (cases "counter \<le> 10 \<and> got_file = False")
    case False
    then have "retry_loop c d counter got_file w = Inr (counter + int 0, got_file, w)"
      by (simp add: retry_loop_done)
    then show ?thesis by (intro exI [of _ 0]) simp
  next
    case True
    obtain g1 w1 where w1: "try_execute_request c d got_file w = Inr (g1, w1)"
      "calls w1 = calls w @ [d]" "log_txt w1 = log_txt w" "cwd w1 = cwd w"
      using try_execute_request_Inr [of c d got_file w] by blast
    from "1.IH" [OF True w1(1) refl] obtain n g' w' where
      r: "retry_loop c d (counter + 1) g1 w1 = Inr (counter + 1 + int n, g', w')"
         "n \<le> nat (11 - (counter + 1))" "calls w' = calls w1 @ replicate n d"
         "log_txt w' = log_txt w1" "cwd w' = cwd w1"
      by blast
    have "retry_loop c d counter got_file w = retry_loop c d (counter + 1) g1 w1"
      using True w1(1) by (subst retry_loop.simps) simp
    with r w1 True have "retry_loop c d counter got_file w = Inr (counter + int (Suc n), g', w')
        \<and> Suc n \<le> nat (11 - counter)
        \<and> calls w' = calls w @ replicate (Suc n) d \<and> log_txt w' = log_txt w \<and> cwd w' = cwd w"
      by (auto simp: replicate_app_Cons_same)
    then show ?thesis by blast
  qed
qed


lemma get_extraction_eq:
  "retry_loop c d 1 False w = Inr (cnt, g, w') \<Longrightarrow>
   get_extraction c d w = Inr (if g then ''success'' else ''fail'', w')"
  by (simp add: get_extraction_def)

text \<open>
  C1. Whatever the request record and the client do, the bounded-retry extraction makes at
  most 10 attempts. If the client fails on each of the 10 attempts, exactly 10 attempts
  are made and the result is \<open>fail\<close>; if the first attempt that completes is attempt
  \<open>k\<close> with \<open>1 \<le> k \<le> 10\<close>, exactly \<open>k\<close> attempts are made (none after the success)
  and the result is \<open>success\<close>.
\<close>

theorem get_extraction_retry_bound:
  "(\<exists>r n. extraction_outcome c d w = Inr (r, n) \<and> n \<le> 10) \<and>
   ((\<forall>j<10. c (length (calls w) + j) (MotuOptions_init d) \<noteq> Completed) \<longrightarrow>
      extraction_outcome c d w = Inr (''fail'', 10)) \<and>
   (1 \<le> k \<and> k \<le> 10
      \<and> (\<forall>j<k - 1. c (length (calls w) + j) (MotuOptions_init d) \<noteq> Completed)
      \<and> c (length (calls w) + (k - 1)) (MotuOptions_init d) = Completed \<longrightarrow>
      extraction_outcome c d w = Inr (''success'', k))"
proof (intro conjI impI)
  obtain n g w' where r: "retry_loop c d 1 False w = Inr (1 + int n, g, w')"
      "n \<le> nat (11 - 1)" "calls w' = calls w @ replicate n d"
    using retry_loop_total [of c d 1 False w] by blast
  then have "extraction_outcome c d w = Inr (if g then ''success'' else ''fail'', n)"
    by (simp add: extraction_outcome_def get_extraction_def attempts_def)
  with r(2) show "\<exists>r n. extraction_outcome c d w = Inr (r, n) \<and> n \<le> 10"
    by auto
next
  assume "\<forall>j<10. c (length (calls w) + j) (MotuOptions_init d) \<noteq> Completed"
  then obtain w' where "retry_loop c d 1 False w = Inr (11, False, w')"
      "calls w' = calls w @ replicate 10 d"
    using retry_loop_all_fail [of 1 10 c w d] by auto
  then show "extraction_outcome c d w = Inr (''fail'', 10)"
    by (simp add: extraction_outcome_def get_extraction_def attempts_def)
next
  assume a: "1 \<le> k \<and> k \<le> 10
      \<and> (\<forall>j<k - 1. c (length (calls w) + j) (MotuOptions_init d) \<noteq> Completed)
      \<and> c (length (calls w) + (k - 1)) (MotuOptions_init d) = Completed"
  then have "1 + int (k - 1) \<le> 10" by simp
  with a obtain w' where "retry_loop c d 1 False w = Inr (1 + int (k - 1) + 1, True, w')"
      "calls w' = calls w @ replicate (Suc (k - 1)) d"
    using retry_loop_first_success [of 1 "k - 1" c w d] by blast
  with a show "extraction_outcome c d w = Inr (''success'', k)"
    by (simp add: extraction_outcome_def get_extraction_def attempts_def)
qed

theorem get_extraction_retry_bound_witness:
  "extraction_outcome always_fails [] world0 = Inr (''fail'', 10) \<and>
   extraction_outcome (succeeds_on 3) [] world0 = Inr (''success'', 3)"
  using get_extraction_retry_bound [of always_fails "[]" world0 3]
        get_extraction_retry_bound [of "succeeds_on 3" "[]" world0 3]
  by (simp add: always_fails_def succeeds_on_def world0_def)

text \<open>
  C9. The retry loop is a total function (its termination is proved from the measure
  \<open>11 - counter\<close>); started with counter 1 it returns with a counter that is one more
  than the number of attempts and at most 11, and \<open>get_extraction\<close> returns one of the two
  strings \<open>success\<close> and \<open>fail\<close>, for every request record and every client.
\<close>

theorem get_extraction_terminates:
  "\<exists>counter got_file w'.
      retry_loop c d 1 False w = Inr (counter, got_file, w')
    \<and> counter = 1 + int (attempts w w') \<and> counter \<le> 11
    \<and> (\<exists>r. get_extraction c d w = Inr (r, w') \<and> (r = ''success'' \<or> r = ''fail''))"
proof -
  obtain n g w' where r: "retry_loop c d 1 False w = Inr (1 + int n, g, w')"
      "n \<le> nat (11 - 1)" "calls w' = calls w @ replicate n d"
    using retry_loop_total [of c d 1 False w] by blast
  have "get_extraction c d w = Inr (if g then ''success'' else ''fail'', w')"
    using r(1) by (rule get_extraction_eq)
  with r show ?thesis by (auto simp: attempts_def)
qed


end
